theory Spec2Isabelle
  imports Complex_Main "HOL-Library.Word"
begin

section \<open>Arrays, pixels and errors\<close>

text \<open>
  The saliency engine of \<^verbatim>\<open>src/app.py\<close> (\<^verbatim>\<open>generate_saliency_map\<close>, lines 68-125) and
  the part of its caller \<^verbatim>\<open>display_tab_content\<close> that prepares its arguments (lines 166-191).

  A numpy array of two spatial dimensions is a list of rows. Floating-point numbers are read as
  real numbers: rounding error, NaN and infinities are outside the model. An 8-bit channel is
  an \<open>8 word\<close>. Every \<^verbatim>\<open>raise\<close> of the Python is a value \<open>Inl e\<close>.
\<close>

datatype error = ValueError | IndexError | ZeroDivisionError | CvError | OSError

type_synonym grid = "real list list"
type_synonym pixel = "8 word \<times> 8 word \<times> 8 word"
type_synonym image = "pixel list list"
type_synonym tensor = "(real \<times> real \<times> real) list list"

text \<open>\<^verbatim>\<open>a.shape[0]\<close> and \<^verbatim>\<open>a.shape[1]\<close> of a (rectangular) array.\<close>

definition shape :: "'a list list \<Rightarrow> nat \<times> nat" where
  "shape a = (length a, case a of [] \<Rightarrow> 0 | r # _ \<Rightarrow> length r)"

definition rectangular :: "nat \<Rightarrow> nat \<Rightarrow> 'a list list \<Rightarrow> bool" where
  "rectangular h w a = (length a = h \<and> list_all (\<lambda>r. length r = w) a)"


section \<open>The external collaborators\<close>

text \<open>
  TensorFlow, OpenCV and Keras are not part of the repository. What the engine calls from them
  is a parameter of the model: the classifier (its scores and the gradient of one score with
  respect to the input, lines 69-75), OpenCV's interpolation, blur and colour table, and
  Keras' image loader.
\<close>

record classifier =
  predict :: "tensor \<Rightarrow> real list"
  class_gradient :: "tensor \<Rightarrow> nat \<Rightarrow> tensor"

record cv2 =
  resize_map :: "grid \<Rightarrow> nat \<times> nat \<Rightarrow> grid"
  GaussianBlur :: "grid \<Rightarrow> grid"
  applyColorMap :: "8 word \<Rightarrow> pixel"
  resize_img :: "image \<Rightarrow> nat \<times> nat \<Rightarrow> image"

text \<open>
  What the model asks of OpenCV: \<^verbatim>\<open>cv2.resize(src, (w, h))\<close> returns an array of \<open>h\<close> rows and
  \<open>w\<close> columns, and \<^verbatim>\<open>cv2.GaussianBlur\<close> keeps the shape of its argument.
\<close>

definition cv2_contract :: "cv2 \<Rightarrow> bool" where
  "cv2_contract cv =
     ((\<forall>src w h. 0 < w \<and> 0 < h \<longrightarrow> rectangular h w (resize_map cv src (w, h))) \<and>
      (\<forall>src w h. 0 < w \<and> 0 < h \<longrightarrow> rectangular h w (resize_img cv src (w, h))) \<and>
      (\<forall>src h w. rectangular h w src \<longrightarrow> rectangular h w (GaussianBlur cv src)))"

text \<open>\<^verbatim>\<open>cv2.resize\<close> raises on an empty source and on a zero destination size.\<close>

definition cv2_resize ::
  "('a list list \<Rightarrow> nat \<times> nat \<Rightarrow> 'a list list) \<Rightarrow> 'a list list \<Rightarrow> nat \<times> nat \<Rightarrow> error + 'a list list" where
  "cv2_resize interp src dsize =
     (if fst dsize = 0 \<or> snd dsize = 0 \<or> fst (shape src) = 0 \<or> snd (shape src) = 0
      then Inl CvError else Inr (interp src dsize))"


section \<open>Lines 69-78: the gradient of the class score\<close>

text \<open>
  \<^verbatim>\<open>predictions[:, class_index]\<close> raises when the index is not a class;
  \<^verbatim>\<open>tf.math.abs\<close> and \<^verbatim>\<open>tf.reduce_max(axis=-1)\<close> take, per pixel, the largest absolute
  gradient of the three channels.
\<close>

definition saliency_gradients :: "classifier \<Rightarrow> tensor \<Rightarrow> nat \<Rightarrow> error + grid" where
  "saliency_gradients model img_array class_index =
     (if length (predict model img_array) \<le> class_index then Inl IndexError
      else Inr (map (map (\<lambda>(r, g, b). max (max \<bar>r\<bar> \<bar>g\<bar>) \<bar>b\<bar>))
                  (class_gradient model img_array class_index)))"


section \<open>Lines 83-90: the circular mask\<close>

text \<open>
  \<^verbatim>\<open>center = (shape[0] // 2, shape[1] // 2)\<close>, \<^verbatim>\<open>radius = min(center) - 10\<close>,
  \<^verbatim>\<open>y, x = np.ogrid[:shape[0], :shape[1]]\<close>: \<open>y\<close> runs over the rows and \<open>x\<close> over the columns,
  and the mask at row \<open>y\<close>, column \<open>x\<close> is
  \<^verbatim>\<open>(x - center[0])**2 + (y - center[1])**2 <= radius**2\<close>.
\<close>

definition circular_mask :: "nat \<Rightarrow> nat \<Rightarrow> bool list list" where
  "circular_mask rows cols =
     (let center = (int rows div 2, int cols div 2);
          radius = min (fst center) (snd center) - 10
      in map (\<lambda>y. map (\<lambda>x. (int x - fst center)\<^sup>2 + (int y - snd center)\<^sup>2 \<le> radius\<^sup>2)
                         [0..<cols]) [0..<rows])"

text \<open>
  For comparison, the mask as the specification words it: centred on the map, so that the
  column index is measured from the middle column and the row index from the middle row.
\<close>

definition centred_mask :: "nat \<Rightarrow> nat \<Rightarrow> bool list list" where
  "centred_mask rows cols =
     (let radius = min (int rows div 2) (int cols div 2) - 10
      in map (\<lambda>y. map (\<lambda>x. (int x - int cols div 2)\<^sup>2 + (int y - int rows div 2)\<^sup>2 \<le> radius\<^sup>2)
                         [0..<cols]) [0..<rows])"

text \<open>\<^verbatim>\<open>gradients * mask\<close>: a boolean multiplies as 0 or 1.\<close>

definition apply_mask :: "grid \<Rightarrow> bool list list \<Rightarrow> grid" where
  "apply_mask g m = map2 (map2 (\<lambda>v b. v * (if b then 1 else 0))) g m"

text \<open>\<^verbatim>\<open>gradients[mask]\<close>: the values at the True positions, in row-major order.\<close>

definition select_mask :: "grid \<Rightarrow> bool list list \<Rightarrow> real list" where
  "select_mask g m = concat (map2 (\<lambda>row mrow. map fst (filter snd (zip row mrow))) g m)"

text \<open>
  \<^verbatim>\<open>gradients[mask] = values\<close>: the k-th value goes to the k-th True position. numpy raises
  when the number of values is neither the number of True positions nor one.
\<close>

fun fill_row :: "real list \<Rightarrow> bool list \<Rightarrow> real list \<Rightarrow> real list \<times> real list" where
  "fill_row (v # vs) (b # bs) xs =
     (if b then
        (case xs of
           [] \<Rightarrow> (let (r, rest) = fill_row vs bs [] in (v # r, rest))
         | x # xs' \<Rightarrow> (let (r, rest) = fill_row vs bs xs' in (x # r, rest)))
      else (let (r, rest) = fill_row vs bs xs in (v # r, rest)))"
| "fill_row vs bs xs = (vs, xs)"

fun fill_grid :: "grid \<Rightarrow> bool list list \<Rightarrow> real list \<Rightarrow> grid" where
  "fill_grid (r # rs) (m # ms) xs = (let (r', rest) = fill_row r m xs in r' # fill_grid rs ms rest)"
| "fill_grid rs ms xs = rs"

definition assign_mask :: "grid \<Rightarrow> bool list list \<Rightarrow> real list \<Rightarrow> error + grid" where
  "assign_mask g m vals =
     (let n = length (select_mask g m) in
      if length vals = n then Inr (fill_grid g m vals)
      else if length vals = 1 then Inr (fill_grid g m (replicate n (hd vals)))
      else Inl ValueError)"


section \<open>Lines 92-96: min-max normalisation of the masked values\<close>

text \<open>
  Division by zero is made an explicit failure (in HOL \<open>x / 0 = 0\<close> would hide it), so that
  its absence is a theorem about the guard of line 94.
\<close>

definition true_divide :: "real list \<Rightarrow> real \<Rightarrow> error + real list" where
  "true_divide xs d = (if d = 0 then Inl ZeroDivisionError else Inr (map (\<lambda>x. x / d) xs))"

text \<open>\<^verbatim>\<open>.max()\<close> of an array with no element raises ValueError.\<close>

definition normalize_brain :: "real list \<Rightarrow> error + real list" where
  "normalize_brain brain_gradients =
     (if brain_gradients = [] then Inl ValueError
      else if Max (set brain_gradients) > Min (set brain_gradients)
      then true_divide (map (\<lambda>v. v - Min (set brain_gradients)) brain_gradients)
                       (Max (set brain_gradients) - Min (set brain_gradients))
      else Inr brain_gradients)"

text \<open>Lines 81-96: resize, mask, normalise. Returns the map together with its mask.\<close>

definition masked_normalized :: "cv2 \<Rightarrow> grid \<Rightarrow> nat \<times> nat \<Rightarrow> error + grid \<times> bool list list" where
  "masked_normalized cv gradients img_size =
     (case cv2_resize (resize_map cv) gradients img_size of
        Inl e \<Rightarrow> Inl e
      | Inr resized \<Rightarrow>
          (let msk = circular_mask (fst (shape resized)) (snd (shape resized));
               masked = apply_mask resized msk
           in case normalize_brain (select_mask masked msk) of
                Inl e \<Rightarrow> Inl e
              | Inr brain_gradients \<Rightarrow>
                  (case assign_mask masked msk brain_gradients of
                     Inl e \<Rightarrow> Inl e
                   | Inr normalized \<Rightarrow> Inr (normalized, msk))))"


section \<open>Lines 98-100: the percentile threshold\<close>

text \<open>
  \<^verbatim>\<open>np.percentile(a, q)\<close> with numpy's default linear interpolation: the value at the
  fractional position \<open>q / 100 * (n - 1)\<close> of the sorted values. On an empty array it is NaN,
  here \<open>None\<close>; a comparison with NaN is False everywhere.
\<close>

definition np_percentile :: "real list \<Rightarrow> real \<Rightarrow> real option" where
  "np_percentile a q =
     (if a = [] then None
      else (let s = sort a;
                n = length s;
                pos = q / 100 * real (n - 1);
                lo = nat \<lfloor>pos\<rfloor>;
                hi = min (lo + 1) (n - 1);
                t = pos - real lo
            in Some (s ! lo + t * (s ! hi - s ! lo))))"

definition zero_below :: "real option \<Rightarrow> real \<Rightarrow> real" where
  "zero_below threshold v = (case threshold of None \<Rightarrow> v | Some t \<Rightarrow> if v < t then 0 else v)"

definition threshold_map :: "grid \<Rightarrow> bool list list \<Rightarrow> grid" where
  "threshold_map gradients msk =
     (let threshold = np_percentile (select_mask gradients msk) 80
      in map (map (zero_below threshold)) gradients)"


section \<open>Lines 103-114: heatmap and blending\<close>

text \<open>
  \<^verbatim>\<open>np.uint8(x)\<close> and \<^verbatim>\<open>.astype(np.uint8)\<close> drop the fraction and keep the low eight bits.
  \<^verbatim>\<open>cv2.cvtColor\<close> with \<^verbatim>\<open>COLOR_BGR2RGB\<close> or \<^verbatim>\<open>COLOR_RGB2BGR\<close> reverses the channels.
\<close>

definition np_uint8 :: "real \<Rightarrow> 8 word" where
  "np_uint8 x = word_of_int (if 0 \<le> x then \<lfloor>x\<rfloor> else \<lceil>x\<rceil>)"

definition cvtColor_swap :: "image \<Rightarrow> image" where
  "cvtColor_swap im = map (map (\<lambda>(c0, c1, c2). (c2, c1, c0))) im"

definition heatmap_of :: "cv2 \<Rightarrow> grid \<Rightarrow> image" where
  "heatmap_of cv gradients =
     cvtColor_swap (map (map (\<lambda>v. applyColorMap cv (np_uint8 (255 * v)))) (GaussianBlur cv gradients))"

definition img_to_array :: "image \<Rightarrow> tensor" where
  "img_to_array im = map (map (\<lambda>(r, g, b). (real (unat r), real (unat g), real (unat b)))) im"

definition blend_channel :: "8 word \<Rightarrow> real \<Rightarrow> 8 word" where
  "blend_channel h v = np_uint8 (real (unat h) * 0.7 + v * 0.3)"

definition blend_pixel :: "pixel \<Rightarrow> real \<times> real \<times> real \<Rightarrow> pixel" where
  "blend_pixel hp vp =
     (case hp of (h0, h1, h2) \<Rightarrow> case vp of (v0, v1, v2) \<Rightarrow>
        (blend_channel h0 v0, blend_channel h1 v1, blend_channel h2 v2))"

text \<open>
  numpy broadcasting of the two spatial axes: equal extents, or one of them 1 (that operand
  is then repeated); anything else raises ValueError.
\<close>

definition bdim :: "nat \<Rightarrow> nat \<Rightarrow> nat option" where
  "bdim a b = (if a = b then Some a else if a = 1 then Some b else if b = 1 then Some a else None)"

definition bidx :: "nat \<Rightarrow> nat \<Rightarrow> nat" where
  "bidx n i = (if n = 1 then 0 else i)"

definition superimpose :: "image \<Rightarrow> tensor \<Rightarrow> error + image" where
  "superimpose heatmap original_img =
     (case bdim (fst (shape heatmap)) (fst (shape original_img)) of
        None \<Rightarrow> Inl ValueError
      | Some r \<Rightarrow>
          (case bdim (snd (shape heatmap)) (snd (shape original_img)) of
             None \<Rightarrow> Inl ValueError
           | Some c \<Rightarrow>
               Inr (map (\<lambda>i. map (\<lambda>j.
                      blend_pixel
                        (heatmap ! bidx (fst (shape heatmap)) i ! bidx (snd (shape heatmap)) j)
                        (original_img ! bidx (fst (shape original_img)) i
                                      ! bidx (snd (shape original_img)) j))
                    [0..<c]) [0..<r])))"


text \<open>Lines 103-114: from the thresholded map to the blended overlay.\<close>

definition overlay_from :: "cv2 \<Rightarrow> grid \<Rightarrow> nat \<times> nat \<Rightarrow> image \<Rightarrow> error + image" where
  "overlay_from cv gradients img_size img =
     (case cv2_resize (resize_img cv) (heatmap_of cv gradients) img_size of
        Inl e \<Rightarrow> Inl e
      | Inr heatmap \<Rightarrow> superimpose heatmap (img_to_array img))"



section \<open>Lines 116-123: the two writes\<close>

text \<open>
  The file system is a map from paths to contents. Whether a write succeeds is decided by the
  environment, so the outcome of each write is an input: \<^verbatim>\<open>open\<close>/\<^verbatim>\<open>write\<close> raise OSError when
  they fail; \<^verbatim>\<open>cv2.imwrite\<close> either writes, or reports failure by returning False (leaving
  the path in some state), or raises. The code discards the value \<^verbatim>\<open>cv2.imwrite\<close> returns.
\<close>

datatype content = RawBytes "8 word list" | ImageFile image

type_synonym filesystem = "string \<Rightarrow> content option"

datatype imwrite_outcome = Written | NotWritten "content option" | Raised

record io_outcomes =
  raw_write_succeeds :: bool
  imwrite_outcome :: imwrite_outcome

record uploaded_file =
  name :: string
  getbuffer :: "8 word list"
  picture :: image

definition output_dir :: string where
  "output_dir = ''saliency_maps''"

text \<open>\<^verbatim>\<open>os.path.join\<close> of two components (POSIX): an absolute second component replaces the first.\<close>

definition os_path_join :: "string \<Rightarrow> string \<Rightarrow> string" where
  "os_path_join a b =
     (if b \<noteq> [] \<and> hd b = CHR ''/'' then b
      else if a = [] \<or> last a = CHR ''/'' then a @ b
      else a @ ''/'' @ b)"

definition persist :: "io_outcomes \<Rightarrow> filesystem \<Rightarrow> uploaded_file \<Rightarrow> image \<Rightarrow> error + filesystem" where
  "persist io fs uploaded_file superimposed_img =
     (let img_path = os_path_join output_dir (name uploaded_file) in
      if \<not> raw_write_succeeds io then Inl OSError
      else (let fs1 = fs(img_path \<mapsto> RawBytes (getbuffer uploaded_file));
                saliency_map_path = ''saliency_maps/'' @ name uploaded_file
            in case imwrite_outcome io of
                 Written \<Rightarrow> Inr (fs1(saliency_map_path \<mapsto> ImageFile (cvtColor_swap superimposed_img)))
               | NotWritten left \<Rightarrow> Inr (fs1(saliency_map_path := left))
               | Raised \<Rightarrow> Inl CvError))"


section \<open>The engine and its caller\<close>

text \<open>Lines 69-114, which touch no file, and then the whole function.\<close>

definition compute_overlay ::
  "classifier \<Rightarrow> cv2 \<Rightarrow> image \<Rightarrow> tensor \<Rightarrow> nat \<Rightarrow> nat \<times> nat \<Rightarrow> error + image" where
  "compute_overlay model cv img img_array class_index img_size =
     (case saliency_gradients model img_array class_index of
        Inl e \<Rightarrow> Inl e
      | Inr gradients \<Rightarrow>
     (case masked_normalized cv gradients img_size of
        Inl e \<Rightarrow> Inl e
      | Inr (normalized, msk) \<Rightarrow>
          overlay_from cv (threshold_map normalized msk) img_size img))"

definition generate_saliency_map ::
  "classifier \<Rightarrow> cv2 \<Rightarrow> io_outcomes \<Rightarrow> filesystem \<Rightarrow> image \<Rightarrow> tensor \<Rightarrow> nat \<Rightarrow> nat \<times> nat \<Rightarrow>
   uploaded_file \<Rightarrow> error + image \<times> filesystem" where
  "generate_saliency_map model cv io fs img img_array class_index img_size uploaded_file =
     (case compute_overlay model cv img img_array class_index img_size of
        Inl e \<Rightarrow> Inl e
      | Inr superimposed_img \<Rightarrow>
     (case persist io fs uploaded_file superimposed_img of
        Inl e \<Rightarrow> Inl e
      | Inr fs' \<Rightarrow> Inr (superimposed_img, fs')))"

text \<open>
  Lines 166-191 of \<^verbatim>\<open>display_tab_content\<close>: the model chosen fixes \<^verbatim>\<open>img_size\<close>; the upload is
  loaded at that size (\<^verbatim>\<open>image.load_img(uploaded_file, target_size=img_size)\<close>, a Keras
  function, here the parameter \<open>load_img\<close>), scaled to [0, 1], classified, and handed to the
  engine with the class of the highest score.
\<close>

datatype selected_model = Xception | CustomCNN

definition img_size_of :: "selected_model \<Rightarrow> nat \<times> nat" where
  "img_size_of sel = (case sel of Xception \<Rightarrow> (299, 299) | CustomCNN \<Rightarrow> (224, 224))"

definition load_img_contract :: "(image \<Rightarrow> nat \<times> nat \<Rightarrow> image) \<Rightarrow> bool" where
  "load_img_contract load_img = (\<forall>src h w. 0 < h \<and> 0 < w \<longrightarrow> rectangular h w (load_img src (h, w)))"

definition np_argmax :: "real list \<Rightarrow> error + nat" where
  "np_argmax xs =
     (if xs = [] then Inl ValueError
      else Inr (length (takeWhile (\<lambda>v. v \<noteq> Max (set xs)) xs)))"

definition display_tab_content ::
  "(selected_model \<Rightarrow> classifier) \<Rightarrow> cv2 \<Rightarrow> (image \<Rightarrow> nat \<times> nat \<Rightarrow> image) \<Rightarrow> io_outcomes \<Rightarrow>
   filesystem \<Rightarrow> selected_model \<Rightarrow> uploaded_file \<Rightarrow> error + image \<times> filesystem" where
  "display_tab_content load_model cv load_img io fs sel uploaded_file =
     (let model = load_model sel;
          img_size = img_size_of sel;
          img = load_img (picture uploaded_file) img_size;
          img_array = map (map (\<lambda>(r, g, b). (r / 255, g / 255, b / 255))) (img_to_array img)
      in case np_argmax (predict model img_array) of
           Inl e \<Rightarrow> Inl e
         | Inr class_index \<Rightarrow>
             generate_saliency_map model cv io fs img img_array class_index img_size uploaded_file)"

section \<open>Reference collaborators\<close>

text \<open>
  Simple instances of the external operations, on which the model can be run: nearest-neighbour
  interpolation, a blur that leaves the map as it is, a two-colour table, and a classifier
  whose score for class 0 is \<open>c\<close> times the sum of its inputs (so that the gradient of that
  score is \<open>c\<close> at every pixel and channel).
\<close>

definition nearest_resize :: "'a list list \<Rightarrow> nat \<times> nat \<Rightarrow> 'a list list" where
  "nearest_resize src dsize =
     map (\<lambda>i. map (\<lambda>j. src ! (i * fst (shape src) div snd dsize) ! (j * snd (shape src) div fst dsize))
                  [0..<fst dsize]) [0..<snd dsize]"

definition reference_cv :: cv2 where
  "reference_cv =
     \<lparr>resize_map = nearest_resize, GaussianBlur = (\<lambda>g. g),
      applyColorMap = (\<lambda>v. (255 - v, 0, v)), resize_img = nearest_resize\<rparr>"

definition reference_load_img :: "image \<Rightarrow> nat \<times> nat \<Rightarrow> image" where
  "reference_load_img src tsize = nearest_resize src (snd tsize, fst tsize)"

definition linear_model :: "real \<Rightarrow> classifier" where
  "linear_model c =
     \<lparr>predict = (\<lambda>t. [c * (\<Sum>row\<leftarrow>t. \<Sum>(r, g, b)\<leftarrow>row. r + g + b), 0, 0, 0]),
      class_gradient = (\<lambda>t k. map (map (\<lambda>p. if k = 0 then (c, c, c) else (0, 0, 0))) t)\<rparr>"

definition writes_succeed :: io_outcomes where
  "writes_succeed = \<lparr>raw_write_succeeds = True, imwrite_outcome = Written\<rparr>"

definition black :: "nat \<Rightarrow> nat \<Rightarrow> image" where
  "black h w = replicate h (replicate w (0, 0, 0))"

definition scan :: "nat \<Rightarrow> nat \<Rightarrow> uploaded_file" where
  "scan h w = \<lparr>name = ''scan.png'', getbuffer = [137, 80, 78, 71], picture = black h w\<rparr>"


section \<open>The circular mask\<close>

lemma circular_mask_nth:
  "y < rows \<Longrightarrow> x < cols \<Longrightarrow>
   circular_mask rows cols ! y ! x =
     ((int x - int rows div 2)\<^sup>2 + (int y - int cols div 2)\<^sup>2
        \<le> (min (int rows div 2) (int cols div 2) - 10)\<^sup>2)"
  by (simp add: circular_mask_def Let_def)

lemma centred_mask_nth:
  "y < rows \<Longrightarrow> x < cols \<Longrightarrow>
   centred_mask rows cols ! y ! x =
     ((int x - int cols div 2)\<^sup>2 + (int y - int rows div 2)\<^sup>2
        \<le> (min (int rows div 2) (int cols div 2) - 10)\<^sup>2)"
  by (simp add: centred_mask_def Let_def)

lemma rectangular_circular_mask: "rectangular rows cols (circular_mask rows cols)"
  by (simp add: rectangular_def circular_mask_def Let_def list_all_iff)


text \<open>On a square map the middle pixel is inside the mask, whatever the side.\<close>

lemma centre_in_square_mask: "0 < n \<Longrightarrow> circular_mask n n ! (n div 2) ! (n div 2)"
  by (simp add: circular_mask_nth zdiv_int)

text \<open>
  On a map of 40 rows and 60 columns the two masks differ, at the middle pixel itself: the
  code measures column 30 from 20 and row 20 from 30.
\<close>

lemma masks_differ_40_60:
  "\<not> circular_mask 40 60 ! 20 ! 30 \<and> centred_mask 40 60 ! 20 ! 30"
  by (simp add: circular_mask_nth centred_mask_nth)

lemma mask_22_by_100_all_false: "True \<notin> set (concat (circular_mask 22 100))"
proof -
  have "\<not> ((int x - 11)\<^sup>2 + (int y - 50)\<^sup>2 \<le> 1)" if "y < 22" for x y :: nat
  proof -
    have "29 \<le> 50 - int y" using that by simp
    then have "(841::int) \<le> (50 - int y)\<^sup>2"
      using power_mono [of 29 "50 - int y" 2] by simp
    moreover have "(50 - int y)\<^sup>2 = (int y - 50)\<^sup>2" by (simp add: power2_commute)
    moreover have "0 \<le> (int x - 11)\<^sup>2" by simp
    ultimately show ?thesis by linarith
  qed
  then show ?thesis
    by (auto simp: circular_mask_def Let_def)
qed






section \<open>Shapes, masking and assignment\<close>

lemma rectangular_shape: "rectangular h w a \<Longrightarrow> 0 < h \<Longrightarrow> shape a = (h, w)"
  by (cases a) (auto simp: rectangular_def shape_def)

lemma rectangular_all2:
  "rectangular h w g \<Longrightarrow> rectangular h w m \<Longrightarrow> list_all2 (\<lambda>r mr. length r = length mr) g m"
  by (auto simp: rectangular_def list_all2_conv_all_nth list_all_length)

lemma rectangular_map2:
  "rectangular h w g \<Longrightarrow> rectangular h w m \<Longrightarrow> rectangular h w (map2 (map2 F) g m)"
  by (auto simp: rectangular_def list_all_length)

lemma rectangular_map: "rectangular h w g \<Longrightarrow> rectangular h w (map (map f) g)"
  by (auto simp: rectangular_def list_all_length)

lemma cv2_resize_map_Inr:
  assumes "cv2_contract cv" and "cv2_resize (resize_map cv) g sz = Inr resized"
  shows "rectangular (snd sz) (fst sz) resized \<and> 0 < fst sz \<and> 0 < snd sz
         \<and> resized = resize_map cv g sz"
proof -
  from assms(2) have pos: "0 < fst sz" "0 < snd sz" and r: "resized = resize_map cv g sz"
    by (auto simp: cv2_resize_def split: if_splits)
  from assms(1) pos have "rectangular (snd sz) (fst sz) (resize_map cv g (fst sz, snd sz))"
    unfolding cv2_contract_def by blast
  with pos r show ?thesis by simp
qed

lemma map2_map2_row:
  "map2 G (map2 H r mr) mr = map2 (\<lambda>v b. G (H v b) b) r mr"
proof (induction r arbitrary: mr)
  case Nil
  then show ?case by simp
next
  case (Cons v r)
  then show ?case by (cases mr) auto
qed

lemma map2_map2_grid:
  "map2 (map2 G) (map2 (map2 H) g m) m = map2 (map2 (\<lambda>v b. G (H v b) b)) g m"
proof (induction g arbitrary: m)
  case Nil
  then show ?case by simp
next
  case (Cons r g)
  then show ?case by (cases m) (auto simp: map2_map2_row)
qed

lemma map2_fst_row: "length r = length mr \<Longrightarrow> map2 (\<lambda>v b. v) r mr = r"
  by (induction r mr rule: list_induct2) auto

lemma map2_fst_grid:
  "list_all2 (\<lambda>r mr. length r = length mr) g m \<Longrightarrow> map2 (map2 (\<lambda>v b. v)) g m = g"
  by (induction g m rule: list_all2_induct) (auto simp: map2_fst_row)

lemma in_select_mask:
  "(r, mr) \<in> set (zip g m) \<Longrightarrow> (v, True) \<in> set (zip r mr) \<Longrightarrow> v \<in> set (select_mask g m)"
  by (force simp: select_mask_def)

lemma in_map2_grid:
  "row \<in> set (map2 (map2 K) g m) \<Longrightarrow> x \<in> set row \<Longrightarrow>
   \<exists>r mr v b. (r, mr) \<in> set (zip g m) \<and> (v, b) \<in> set (zip r mr) \<and> x = K v b"
  by fastforce


lemma select_row_masked:
  "map fst (filter snd (zip (map2 (\<lambda>v b. v * (if b then 1 else 0)) r mr) mr))
     = map fst (filter snd (zip (r :: real list) mr))"
proof (induction r arbitrary: mr)
  case Nil
  then show ?case by simp
next
  case (Cons v r)
  then show ?case by (cases mr) auto
qed

lemma select_apply_mask: "select_mask (apply_mask g m) m = select_mask g m"
proof (induction g arbitrary: m)
  case Nil
  then show ?case by (simp add: select_mask_def apply_mask_def)
next
  case (Cons r g)
  show ?case
  proof (cases m)
    case Nil
    then show ?thesis by (simp add: select_mask_def apply_mask_def)
  next
    case (Cons mr ms)
    have "select_mask (apply_mask g ms) ms = select_mask g ms" by (rule Cons.IH)
    then show ?thesis
      using Cons by (simp add: select_mask_def apply_mask_def select_row_masked)
  qed
qed

lemma fill_row_map:
  "length r = length mr \<Longrightarrow>
   fill_row r mr (map f (map fst (filter snd (zip r mr))) @ rest)
     = (map2 (\<lambda>v b. if b then f v else v) r mr, rest)"
proof (induction r mr rule: list_induct2)
  case Nil
  then show ?case by simp
next
  case (Cons v r b mr)
  then show ?case by simp
qed

lemma fill_grid_map:
  "list_all2 (\<lambda>r mr. length r = length mr) g m \<Longrightarrow>
   fill_grid g m (map f (select_mask g m) @ rest)
     = map2 (map2 (\<lambda>v b. if b then f v else v)) g m"
proof (induction g m arbitrary: rest rule: list_all2_induct)
  case Nil
  then show ?case by simp
next
  case (Cons r g mr m)
  have sel: "select_mask (r # g) (mr # m) = map fst (filter snd (zip r mr)) @ select_mask g m"
    by (simp add: select_mask_def)
  have row: "fill_row r mr (map f (map fst (filter snd (zip r mr))) @ map f (select_mask g m) @ rest)
               = (map2 (\<lambda>v b. if b then f v else v) r mr, map f (select_mask g m) @ rest)"
    using Cons.hyps(1) by (rule fill_row_map)
  have "fill_grid (r # g) (mr # m) (map f (select_mask (r # g) (mr # m)) @ rest)
          = fill_grid (r # g) (mr # m)
              (map f (map fst (filter snd (zip r mr))) @ map f (select_mask g m) @ rest)"
    by (simp only: sel map_append append_assoc)
  also have "\<dots> = map2 (\<lambda>v b. if b then f v else v) r mr # fill_grid g m (map f (select_mask g m) @ rest)"
    by (simp only: fill_grid.simps row Let_def prod.case)
  finally show ?case
    using Cons.IH [of rest] by simp
qed

lemma assign_mask_map:
  "list_all2 (\<lambda>r mr. length r = length mr) g m \<Longrightarrow>
   assign_mask g m (map f (select_mask g m)) = Inr (map2 (map2 (\<lambda>v b. if b then f v else v)) g m)"
  using fill_grid_map [of g m f "[]"] by (simp add: assign_mask_def)

lemma normalize_brain_cases:
  "normalize_brain bg =
     (if bg = [] then Inl ValueError
      else if Min (set bg) < Max (set bg)
      then Inr (map (\<lambda>v. (v - Min (set bg)) / (Max (set bg) - Min (set bg))) bg)
      else Inr bg)"
  by (simp add: normalize_brain_def true_divide_def comp_def)

text \<open>The normalising function of line 95, and what lines 81-96 compute.\<close>

lemma masked_normalized_eq:
  assumes c: "cv2_contract cv" and r: "cv2_resize (resize_map cv) g sz = Inr resized"
  shows "masked_normalized cv g sz =
     (let m = circular_mask (snd sz) (fst sz); brain = select_mask resized m in
      if brain = [] then Inl ValueError
      else if Min (set brain) < Max (set brain)
      then Inr (map2 (map2 (\<lambda>v b. if b then (v - Min (set brain)) / (Max (set brain) - Min (set brain)) else 0))
                  resized m, m)
      else Inr (apply_mask resized m, m))"
proof -
  define m where "m = circular_mask (snd sz) (fst sz)"
  define brain where "brain = select_mask resized m"
  from cv2_resize_map_Inr [OF c r]
  have rect: "rectangular (snd sz) (fst sz) resized" and pos: "0 < fst sz" "0 < snd sz" by blast+
  have sh: "shape resized = (snd sz, fst sz)" using rect pos by (simp add: rectangular_shape)
  have rm: "rectangular (snd sz) (fst sz) m" by (simp add: m_def rectangular_circular_mask)
  have ra: "rectangular (snd sz) (fst sz) (apply_mask resized m)"
    unfolding apply_mask_def using rect rm by (rule rectangular_map2)
  have all2: "list_all2 (\<lambda>r mr. length r = length mr) (apply_mask resized m) m"
    using ra rm by (rule rectangular_all2)
  have sel: "select_mask (apply_mask resized m) m = brain"
    by (simp add: brain_def select_apply_mask)
  have unfold: "masked_normalized cv g sz =
      (case normalize_brain brain of Inl e \<Rightarrow> Inl e
       | Inr bg \<Rightarrow> (case assign_mask (apply_mask resized m) m bg of Inl e \<Rightarrow> Inl e
                     | Inr n \<Rightarrow> Inr (n, m)))"
    by (simp add: masked_normalized_def r sh Let_def m_def [symmetric] sel)
  have goal: "masked_normalized cv g sz =
     (if brain = [] then Inl ValueError
      else if Min (set brain) < Max (set brain)
      then Inr (map2 (map2 (\<lambda>v b. if b then (v - Min (set brain)) / (Max (set brain) - Min (set brain)) else 0))
                  resized m, m)
      else Inr (apply_mask resized m, m))"
  proof (cases "brain = []")
    case True
    then show ?thesis
      by (simp add: unfold normalize_brain_cases)
  next
    case ne: False
    show ?thesis
    proof (cases "Min (set brain) < Max (set brain)")
      case True
      let ?f = "\<lambda>v. (v - Min (set brain)) / (Max (set brain) - Min (set brain))"
      have "assign_mask (apply_mask resized m) m (map ?f (select_mask (apply_mask resized m) m))
              = Inr (map2 (map2 (\<lambda>v b. if b then ?f v else v)) (apply_mask resized m) m)"
        using all2 by (rule assign_mask_map)
      also have "map2 (map2 (\<lambda>v b. if b then ?f v else v)) (apply_mask resized m) m
                   = map2 (map2 (\<lambda>v b. if b then ?f v else 0)) resized m"
        unfolding apply_mask_def map2_map2_grid
        by (rule arg_cong [where f = "\<lambda>F. map2 (map2 F) resized m"]) (rule ext, rule ext, simp)
      finally show ?thesis
        using ne True
        by (simp add: unfold normalize_brain_cases sel)
    next
      case False
      have "assign_mask (apply_mask resized m) m (map (\<lambda>v. v) (select_mask (apply_mask resized m) m))
              = Inr (map2 (map2 (\<lambda>v b. if b then v else v)) (apply_mask resized m) m)"
        using all2 by (rule assign_mask_map)
      then have "assign_mask (apply_mask resized m) m brain = Inr (apply_mask resized m)"
        using all2 by (simp add: sel map2_fst_grid)
      then show ?thesis
        using ne False
        by (simp add: unfold normalize_brain_cases)
    qed
  qed
  show ?thesis
    using goal unfolding Let_def brain_def m_def .
qed


lemma masked_normalized_resized:
  assumes "masked_normalized cv g sz = Inr (n, m)"
  shows "cv2_resize (resize_map cv) g sz = Inr (resize_map cv g sz)"
  using assms by (auto simp: masked_normalized_def cv2_resize_def split: if_splits)

lemma unit_range_normalized:
  fixes v :: real
  assumes "v \<in> set bg" "Min (set bg) < Max (set bg)"
  shows "0 \<le> (v - Min (set bg)) / (Max (set bg) - Min (set bg))
         \<and> (v - Min (set bg)) / (Max (set bg) - Min (set bg)) \<le> 1"
proof -
  have "Min (set bg) \<le> v" "v \<le> Max (set bg)" using assms(1) by simp_all
  then show ?thesis using assms(2) by simp
qed

lemma flat_values:
  fixes bg :: "real list"
  assumes "bg \<noteq> []" "\<not> Min (set bg) < Max (set bg)"
  shows "set bg = {Min (set bg)}"
proof -
  have le: "Max (set bg) \<le> Min (set bg)" using assms(2) by simp
  have "v = Min (set bg)" if "v \<in> set bg" for v
  proof -
    have "Min (set bg) \<le> v" "v \<le> Max (set bg)" using that by simp_all
    with le show ?thesis by linarith
  qed
  moreover have "Min (set bg) \<in> set bg" using assms(1) by simp
  ultimately show ?thesis by blast
qed

lemma select_mask_nth:
  assumes "i < length g" "i < length m" "j < length (g ! i)" "j < length (m ! i)" "m ! i ! j"
  shows "g ! i ! j \<in> set (select_mask g m)"
proof -
  have "(g ! i, m ! i) \<in> set (zip g m)"
    using assms(1,2) by (auto simp: set_zip)
  moreover have "(g ! i ! j, True) \<in> set (zip (g ! i) (m ! i))"
    using assms(3,4,5) by (auto simp: set_zip)
  ultimately show ?thesis by (rule in_select_mask)
qed

lemma select_mask_subset: "v \<in> set (select_mask g m) \<Longrightarrow> \<exists>row \<in> set g. v \<in> set row"
  by (auto simp: select_mask_def dest!: set_zip_leftD)


lemma nearest_resize_replicate:
  assumes "0 < H" "0 < W"
  shows "nearest_resize (replicate H (replicate W c)) (w, h) = replicate h (replicate w c)"
proof -
  have sh: "shape (replicate H (replicate W c)) = (H, W)"
    using assms by (cases H) (simp_all add: shape_def)
  have inner: "map (\<lambda>j. replicate H (replicate W c) ! (i * H div h) ! (j * W div w)) [0..<w]
                 = replicate w c" if "i < h" for i
  proof (rule nth_equalityI)
    show "length (map (\<lambda>j. replicate H (replicate W c) ! (i * H div h) ! (j * W div w)) [0..<w])
            = length (replicate w c)" by simp
  next
    fix j assume "j < length (map (\<lambda>j. replicate H (replicate W c) ! (i * H div h) ! (j * W div w)) [0..<w])"
    then have j: "j < w" by simp
    have "i * H div h < H" using that assms(1)
      by (simp add: less_mult_imp_div_less mult.commute)
    moreover have "j * W div w < W" using j assms(2)
      by (simp add: less_mult_imp_div_less mult.commute)
    ultimately show "map (\<lambda>j. replicate H (replicate W c) ! (i * H div h) ! (j * W div w)) [0..<w] ! j
                       = replicate w c ! j"
      using j by simp
  qed
  show ?thesis
    unfolding nearest_resize_def sh fst_conv snd_conv
    by (rule nth_equalityI) (simp_all add: inner)
qed

lemma reference_cv_contract: "cv2_contract reference_cv"
  by (simp add: cv2_contract_def reference_cv_def nearest_resize_def rectangular_def list_all_iff)

lemma reference_load_img_contract: "load_img_contract reference_load_img"
  by (simp add: load_img_contract_def reference_load_img_def nearest_resize_def rectangular_def list_all_iff)

lemma rectangular_replicate: "rectangular h w (replicate h (replicate w c))"
  by (simp add: rectangular_def list_all_iff)

text \<open>A constant map on a square: the masked region is not empty and holds the one value.\<close>

lemma constant_square_region:
  assumes "0 < n"
  shows "set (select_mask (replicate n (replicate n c)) (circular_mask n n)) = {c}"
proof -
  let ?g = "replicate n (replicate n c)"
  let ?m = "circular_mask n n"
  have d: "n div 2 < n" using assms by simp
  have rm: "rectangular n n ?m" by (rule rectangular_circular_mask)
  then have lm: "length ?m = n" "length (?m ! (n div 2)) = n"
    using d by (auto simp: rectangular_def list_all_length)
  have "?g ! (n div 2) ! (n div 2) \<in> set (select_mask ?g ?m)"
    using d lm centre_in_square_mask [OF assms] by (intro select_mask_nth) simp_all
  then have "c \<in> set (select_mask ?g ?m)" using d by simp
  moreover have "v = c" if "v \<in> set (select_mask ?g ?m)" for v
    using select_mask_subset [OF that] by auto
  ultimately show ?thesis by blast
qed


lemma upt_2: "[0..<2] = [0, Suc 0]"
  by (simp add: numeral_2_eq_2)

lemma shape_replicate: "0 < H \<Longrightarrow> shape (replicate H (replicate W c)) = (H, W)"
  by (cases H) (simp_all add: shape_def)

lemma apply_mask_nth:
  "i < length g \<Longrightarrow> i < length m \<Longrightarrow> j < length (g ! i) \<Longrightarrow> j < length (m ! i) \<Longrightarrow>
   apply_mask g m ! i ! j = g ! i ! j * (if m ! i ! j then 1 else 0)"
  by (simp add: apply_mask_def)

lemma reference_resize_constant:
  assumes "0 < n" "0 < W"
  shows "cv2_resize (resize_map reference_cv) (replicate n (replicate W c)) (w, h)
           = (if w = 0 \<or> h = 0 then Inl CvError else Inr (replicate h (replicate w c)))"
  using assms
  by (simp add: cv2_resize_def shape_replicate reference_cv_def nearest_resize_replicate)

lemma constant_square_masked_normalized:
  assumes "0 < n"
  shows "masked_normalized reference_cv (replicate n (replicate n c)) (n, n)
           = Inr (apply_mask (replicate n (replicate n c)) (circular_mask n n), circular_mask n n)"
proof -
  have r: "cv2_resize (resize_map reference_cv) (replicate n (replicate n c)) (n, n)
             = Inr (replicate n (replicate n c))"
    using assms by (simp add: reference_resize_constant)
  have s: "set (select_mask (replicate n (replicate n c)) (circular_mask n n)) = {c}"
    using assms by (rule constant_square_region)
  then have ne: "select_mask (replicate n (replicate n c)) (circular_mask n n) \<noteq> []"
    by auto
  show ?thesis
    using ne by (simp add: masked_normalized_eq [OF reference_cv_contract r] s Let_def)
qed

lemma masked_normalized_2x2:
  "masked_normalized reference_cv [[1, 2], [3, 5]] (2, 2)
     = Inr ([[0, 1 / 4], [1 / 2, 1]], [[True, True], [True, True]])"
proof -
  have r: "cv2_resize (resize_map reference_cv) [[1, 2], [3, 5::real]] (2, 2) = Inr [[1, 2], [3, 5]]"
    by (simp add: cv2_resize_def shape_def reference_cv_def nearest_resize_def upt_2)
  have m: "circular_mask 2 2 = [[True, True], [True, True]]"
    by (simp add: circular_mask_def Let_def upt_2)
  have s: "select_mask [[1, 2], [3, 5]] [[True, True], [True, True]] = [1, 2, 3, 5]"
    by (simp add: select_mask_def)
  show ?thesis
    by (simp add: masked_normalized_eq [OF reference_cv_contract r] m s Let_def)
qed


lemma select_mask_all_false:
  assumes "True \<notin> set (concat m)"
  shows "select_mask g m = []"
proof -
  have "map fst (filter snd (zip r mr)) = []" if "mr \<in> set m" for r :: "real list" and mr
  proof -
    have "True \<notin> set mr" using assms that by auto
    then show ?thesis by (auto simp: filter_empty_conv dest: set_zip_rightD)
  qed
  then show ?thesis
    by (auto simp: select_mask_def dest: set_zip_rightD)
qed

text \<open>
  On a target of 100 x 22 the masked region is empty, and the engine raises at line 94
  (\<^verbatim>\<open>.max()\<close> of an empty array) whatever the gradients are.
\<close>

lemma engine_raises_on_22_by_100:
  assumes c: "cv2_contract cv" and g: "fst (shape g) \<noteq> 0" "snd (shape g) \<noteq> 0"
  shows "masked_normalized cv g (100, 22) = Inl ValueError"
proof -
  have r: "cv2_resize (resize_map cv) g (100, 22) = Inr (resize_map cv g (100, 22))"
    using g by (simp add: cv2_resize_def)
  have "select_mask (resize_map cv g (100, 22)) (circular_mask 22 100) = []"
    using mask_22_by_100_all_false by (rule select_mask_all_false)
  then show ?thesis
    by (simp add: masked_normalized_eq [OF c r] Let_def)
qed


section \<open>The normalised gradient map\<close>

text \<open>
  C3 (amended). After masking and normalisation (lines 81-96, whenever they return), either
  every value of the gradient map lies in [0, 1], or the masked region is flat and the map is
  left as it was after masking: zero outside the mask and one common value \<open>c\<close> inside it.
  That value is whatever the gradient was; nothing makes it zero or keeps it below 1.
\<close>

theorem gradient_map_unit_range_or_flat:
  assumes c: "cv2_contract cv"
      and mn: "masked_normalized cv gradients img_size = Inr (normalized, msk)"
  shows "(\<forall>row \<in> set normalized. \<forall>v \<in> set row. 0 \<le> v \<and> v \<le> 1) \<or>
         (\<exists>c. set (select_mask normalized msk) = {c} \<and>
              normalized = apply_mask (resize_map cv gradients img_size) msk)"
proof -
  define resized where "resized = resize_map cv gradients img_size"
  define m where "m = circular_mask (snd img_size) (fst img_size)"
  define brain where "brain = select_mask resized m"
  have r: "cv2_resize (resize_map cv) gradients img_size = Inr resized"
    using mn unfolding resized_def by (rule masked_normalized_resized)
  note eq = masked_normalized_eq [OF c r, unfolded Let_def, folded m_def, folded brain_def]
  have ne: "brain \<noteq> []" using mn eq by (auto split: if_splits)
  show ?thesis
  proof (cases "Min (set brain) < Max (set brain)")
    case True
    let ?K = "\<lambda>v b. if b then (v - Min (set brain)) / (Max (set brain) - Min (set brain)) else 0"
    have n: "normalized = map2 (map2 ?K) resized m" and "msk = m"
      using mn unfolding eq using ne True by auto
    have "0 \<le> x \<and> x \<le> 1" if row: "row \<in> set normalized" and x: "x \<in> set row" for row x
    proof -
      from in_map2_grid [OF row [unfolded n] x]
      obtain r mr v b where z: "(r, mr) \<in> set (zip resized m)" "(v, b) \<in> set (zip r mr)"
        and xe: "x = ?K v b" by blast
      show ?thesis
      proof (cases b)
        case True
        then have "v \<in> set brain" using z unfolding brain_def by (auto intro: in_select_mask)
        then show ?thesis using unit_range_normalized [of v brain] \<open>Min (set brain) < Max (set brain)\<close> xe True
          by simp
      next
        case False
        then show ?thesis using xe by simp
      qed
    qed
    then show ?thesis by blast
  next
    case False
    have n: "normalized = apply_mask resized m" and mm: "msk = m"
      using mn unfolding eq using ne False by auto
    have "set (select_mask normalized msk) = {Min (set brain)}"
      using flat_values [OF ne False] by (simp add: n mm select_apply_mask brain_def)
    then show ?thesis using n mm resized_def by blast
  qed
qed

theorem gradient_map_unit_range_or_flat_witness:
  "cv2_contract reference_cv \<and>
   masked_normalized reference_cv [[1, 2], [3, 5]] (2, 2)
     = Inr ([[0, 1 / 4], [1 / 2, 1]], [[True, True], [True, True]]) \<and>
   ((\<forall>row \<in> set [[0, 1 / 4], [1 / 2, 1 :: real]]. \<forall>v \<in> set row. 0 \<le> v \<and> v \<le> 1) \<or>
    (\<exists>c. set (select_mask [[0, 1 / 4], [1 / 2, 1]] [[True, True], [True, True]]) = {c} \<and>
         [[0, 1 / 4], [1 / 2, 1]]
           = apply_mask (resize_map reference_cv [[1, 2], [3, 5]] (2, 2)) [[True, True], [True, True]]))"
  using gradient_map_unit_range_or_flat [OF reference_cv_contract masked_normalized_2x2]
        reference_cv_contract masked_normalized_2x2
  by blast

text \<open>
  A classifier whose score is five times the sum of its inputs has the gradient 5 at every
  pixel. On the 299 x 299 map the masked region is then flat, normalisation is skipped, and
  the centre pixel of the gradient map keeps the value 5: neither in [0, 1] nor zero.
\<close>

theorem constant_gradient_5_stays_unnormalized:
  "saliency_gradients (linear_model 5) (replicate 299 (replicate 299 (0, 0, 0))) 0
     = Inr (replicate 299 (replicate 299 5)) \<and>
   map_sum id (\<lambda>p. fst p ! 149 ! 149)
     (masked_normalized reference_cv (replicate 299 (replicate 299 5)) (299, 299)) = Inr 5"
proof -
  have "saliency_gradients (linear_model 5) (replicate 299 (replicate 299 (0, 0, 0))) 0
          = Inr (replicate 299 (replicate 299 5))"
    by (simp add: saliency_gradients_def linear_model_def)
  moreover have "circular_mask 299 299 ! 149 ! 149"
    using centre_in_square_mask [of 299] by simp
  then have "apply_mask (replicate 299 (replicate 299 5)) (circular_mask 299 299) ! 149 ! 149 = 5"
    using rectangular_circular_mask [of 299 299]
    by (simp add: apply_mask_nth rectangular_def list_all_length)
  ultimately show ?thesis
    by (simp add: constant_square_masked_normalized)
qed


section \<open>The percentile threshold\<close>











lemma threshold_2x2_distinct:
  "threshold_map [[0, 1 / 4], [1 / 2, 1]] [[True, True], [True, True]] = [[0, 0], [0, 1]]"
  by (simp add: threshold_map_def select_mask_def np_percentile_def zero_below_def Let_def)




section \<open>Blending\<close>



lemma shape_img_to_array: "shape (img_to_array img) = shape img"
  by (cases img) (simp_all add: shape_def img_to_array_def)

lemma rectangular_img_to_array: "rectangular h w img \<Longrightarrow> rectangular h w (img_to_array img)"
  unfolding img_to_array_def by (rule rectangular_map)

lemma superimpose_same_shape:
  assumes "rectangular h w heatmap" "rectangular h w original_img" "0 < h"
  shows "superimpose heatmap original_img
           = Inr (map (\<lambda>i. map (\<lambda>j. blend_pixel (heatmap ! i ! j) (original_img ! i ! j)) [0..<w]) [0..<h])"
proof -
  have sh: "shape heatmap = (h, w)" "shape original_img = (h, w)"
    using assms by (simp_all add: rectangular_shape)
  have bi: "bidx n i = i" if "i < n" for n i
    using that by (auto simp: bidx_def)
  show ?thesis
    by (simp add: superimpose_def sh bdim_def bi cong: map_cong)
qed

lemma rectangular_superimpose:
  assumes "rectangular h w heatmap" "rectangular h w original_img" "0 < h"
      and "superimpose heatmap original_img = Inr ov"
  shows "rectangular h w ov"
  using assms(4) unfolding superimpose_same_shape [OF assms(1,2,3)]
  by (auto simp: rectangular_def list_all_iff)





section \<open>Computing the overlay\<close>

lemma rectangular_heatmap_of:
  assumes "cv2_contract cv" "rectangular h w g"
  shows "rectangular h w (heatmap_of cv g)"
proof -
  have "rectangular h w (GaussianBlur cv g)"
    using assms unfolding cv2_contract_def by blast
  then show ?thesis
    unfolding heatmap_of_def cvtColor_swap_def by (intro rectangular_map)
qed

lemma cv2_resize_img_Inr:
  assumes "cv2_contract cv" and "cv2_resize (resize_img cv) src sz = Inr resized"
  shows "rectangular (snd sz) (fst sz) resized \<and> 0 < fst sz \<and> 0 < snd sz"
proof -
  from assms(2) have pos: "0 < fst sz" "0 < snd sz" and r: "resized = resize_img cv src sz"
    by (auto simp: cv2_resize_def split: if_splits)
  from assms(1) pos have "rectangular (snd sz) (fst sz) (resize_img cv src (fst sz, snd sz))"
    unfolding cv2_contract_def by blast
  with pos r show ?thesis by simp
qed

lemma overlay_from_shape:
  assumes c: "cv2_contract cv" and o: "overlay_from cv g (w, h) img = Inr ov"
      and i: "rectangular h w img"
  shows "rectangular h w ov"
proof -
  from o obtain hm where hm: "cv2_resize (resize_img cv) (heatmap_of cv g) (w, h) = Inr hm"
    and s: "superimpose hm (img_to_array img) = Inr ov"
    by (auto simp: overlay_from_def split: sum.splits)
  from cv2_resize_img_Inr [OF c hm] have "rectangular h w hm" "0 < h" by simp_all
  then show ?thesis
    using rectangular_superimpose [OF _ rectangular_img_to_array [OF i] _ s] by blast
qed

lemma overlay_from_succeeds:
  assumes c: "cv2_contract cv" and g: "rectangular h w g" and pos: "0 < h" "0 < w"
      and i: "rectangular h w img"
  shows "\<exists>ov. overlay_from cv g (w, h) img = Inr ov"
proof -
  have "shape (heatmap_of cv g) = (h, w)"
    using rectangular_heatmap_of [OF c g] pos by (simp add: rectangular_shape)
  then have r: "cv2_resize (resize_img cv) (heatmap_of cv g) (w, h)
                  = Inr (resize_img cv (heatmap_of cv g) (w, h))"
    using pos by (simp add: cv2_resize_def)
  from cv2_resize_img_Inr [OF c r]
  have "rectangular h w (resize_img cv (heatmap_of cv g) (w, h))" by simp
  from superimpose_same_shape [OF this rectangular_img_to_array [OF i] pos(1)]
  show ?thesis
    by (simp add: overlay_from_def r)
qed

lemma masked_normalized_shape:
  assumes c: "cv2_contract cv" and mn: "masked_normalized cv g (w, h) = Inr (n, m)"
  shows "rectangular h w n \<and> m = circular_mask h w \<and> 0 < h \<and> 0 < w"
proof -
  have r: "cv2_resize (resize_map cv) g (w, h) = Inr (resize_map cv g (w, h))"
    using mn by (rule masked_normalized_resized)
  from cv2_resize_map_Inr [OF c r]
  have rect: "rectangular h w (resize_map cv g (w, h))" and pos: "0 < w" "0 < h" by simp_all
  have rm: "rectangular h w (circular_mask h w)" by (rule rectangular_circular_mask)
  note eq = masked_normalized_eq [OF c r, unfolded Let_def fst_conv snd_conv]
  let ?b = "select_mask (resize_map cv g (w, h)) (circular_mask h w)"
  have "rectangular h w n \<and> m = circular_mask h w"
  proof (cases "?b = []")
    case True
    then show ?thesis using mn eq by simp
  next
    case ne: False
    show ?thesis
    proof (cases "Min (set ?b) < Max (set ?b)")
      case True
      then have "n = map2 (map2 (\<lambda>v b. if b then (v - Min (set ?b)) / (Max (set ?b) - Min (set ?b)) else 0))
                       (resize_map cv g (w, h)) (circular_mask h w)" and "m = circular_mask h w"
        using mn ne unfolding eq by auto
      then show ?thesis using rectangular_map2 [OF rect rm] by blast
    next
      case False
      then have "n = apply_mask (resize_map cv g (w, h)) (circular_mask h w)" and "m = circular_mask h w"
        using mn ne unfolding eq by auto
      then show ?thesis using rectangular_map2 [OF rect rm] unfolding apply_mask_def by blast
    qed
  qed
  then show ?thesis using pos by simp
qed

lemma compute_overlay_cases:
  assumes "compute_overlay model cv img arr k sz = Inr ov"
  obtains g n m where "saliency_gradients model arr k = Inr g"
    and "masked_normalized cv g sz = Inr (n, m)"
    and "overlay_from cv (threshold_map n m) sz img = Inr ov"
proof (cases "saliency_gradients model arr k")
  case (Inl e)
  then show ?thesis using assms by (simp add: compute_overlay_def)
next
  case sg: (Inr g)
  show ?thesis
  proof (cases "masked_normalized cv g sz")
    case (Inl e)
    then show ?thesis using assms sg by (simp add: compute_overlay_def)
  next
    case (Inr p)
    then have mn: "masked_normalized cv g sz = Inr (fst p, snd p)" by simp
    then have "overlay_from cv (threshold_map (fst p) (snd p)) sz img = Inr ov"
      using assms sg Inr by (simp add: compute_overlay_def split_beta)
    with sg mn show ?thesis by (rule that)
  qed
qed

lemma compute_overlay_shape:
  assumes c: "cv2_contract cv" and o: "compute_overlay model cv img arr k (w, h) = Inr ov"
      and i: "rectangular h w img"
  shows "rectangular h w ov"
proof -
  from o obtain n m where "overlay_from cv (threshold_map n m) (w, h) img = Inr ov"
    by (rule compute_overlay_cases)
  with c show ?thesis using i by (rule overlay_from_shape)
qed

lemma masked_normalized_succeeds_square:
  assumes c: "cv2_contract cv" and g: "fst (shape g) \<noteq> 0" "snd (shape g) \<noteq> 0" and s: "0 < s"
  shows "\<exists>n. masked_normalized cv g (s, s) = Inr (n, circular_mask s s) \<and> rectangular s s n"
proof -
  let ?r = "resize_map cv g (s, s)"
  have r: "cv2_resize (resize_map cv) g (s, s) = Inr ?r"
    using g s by (simp add: cv2_resize_def)
  from cv2_resize_map_Inr [OF c r] have rect: "rectangular s s ?r" by simp
  have rm: "rectangular s s (circular_mask s s)" by (rule rectangular_circular_mask)
  have d: "s div 2 < s" using s by simp
  have "?r ! (s div 2) ! (s div 2) \<in> set (select_mask ?r (circular_mask s s))"
    using rect rm d centre_in_square_mask [OF s]
    by (intro select_mask_nth) (auto simp: rectangular_def list_all_length)
  then have ne: "select_mask ?r (circular_mask s s) \<noteq> []" by auto
  note eq = masked_normalized_eq [OF c r, unfolded Let_def fst_conv snd_conv]
  let ?b = "select_mask ?r (circular_mask s s)"
  show ?thesis
  proof (cases "Min (set ?b) < Max (set ?b)")
    case True
    then have "masked_normalized cv g (s, s)
        = Inr (map2 (map2 (\<lambda>v b. if b then (v - Min (set ?b)) / (Max (set ?b) - Min (set ?b)) else 0))
                ?r (circular_mask s s), circular_mask s s)"
      using ne unfolding eq by simp
    then show ?thesis using rectangular_map2 [OF rect rm] by blast
  next
    case False
    then have "masked_normalized cv g (s, s) = Inr (apply_mask ?r (circular_mask s s), circular_mask s s)"
      using ne unfolding eq by simp
    then show ?thesis using rectangular_map2 [OF rect rm] unfolding apply_mask_def by blast
  qed
qed

lemma compute_overlay_succeeds_square:
  assumes c: "cv2_contract cv" and sg: "saliency_gradients model arr k = Inr g"
      and g: "fst (shape g) \<noteq> 0" "snd (shape g) \<noteq> 0" and s: "0 < s"
      and i: "rectangular s s img"
  shows "\<exists>ov. compute_overlay model cv img arr k (s, s) = Inr ov"
proof -
  from masked_normalized_succeeds_square [OF c g s]
  obtain n where n: "masked_normalized cv g (s, s) = Inr (n, circular_mask s s)"
    and rn: "rectangular s s n" by blast
  have "rectangular s s (threshold_map n (circular_mask s s))"
    unfolding threshold_map_def Let_def using rn by (rule rectangular_map)
  from overlay_from_succeeds [OF c this s s i]
  show ?thesis by (simp add: compute_overlay_def sg n)
qed


section \<open>Persistence\<close>

lemma relative_img_path:
  "\<not> (nm \<noteq> [] \<and> hd nm = CHR ''/'') \<Longrightarrow> os_path_join output_dir nm = ''saliency_maps/'' @ nm"
  by (simp add: os_path_join_def output_dir_def)

lemma persist_relative:
  assumes "\<not> (name up \<noteq> [] \<and> hd (name up) = CHR ''/'')"
  shows "persist io fs up ov =
     (if \<not> raw_write_succeeds io then Inl OSError
      else case imwrite_outcome io of
             Written \<Rightarrow> Inr (fs(''saliency_maps/'' @ name up \<mapsto> ImageFile (cvtColor_swap ov)))
           | NotWritten left \<Rightarrow> Inr (fs(''saliency_maps/'' @ name up := left))
           | Raised \<Rightarrow> Inl CvError)"
  by (simp add: persist_def Let_def relative_img_path [OF assms] split: imwrite_outcome.splits)


text \<open>
  C4 (amended). For an upload whose name is a relative path, and when both writes succeed, the
  engine writes one path, \<^verbatim>\<open>saliency_maps/<name>\<close>: first the raw uploaded bytes (line 118),
  then the blended overlay (line 123), which replaces them. After the call that path holds
  the overlay, every other path is as before, and whatever an earlier upload of the same
  name left there is overwritten.
\<close>

theorem both_writes_go_to_one_path:
  assumes "\<not> (name up \<noteq> [] \<and> hd (name up) = CHR ''/'')"
      and "raw_write_succeeds io" and "imwrite_outcome io = Written"
  shows "persist io fs up ov
           = Inr (fs(''saliency_maps/'' @ name up \<mapsto> ImageFile (cvtColor_swap ov))) \<and>
         persist io (fs(''saliency_maps/'' @ name up \<mapsto> previous)) up ov
           = Inr (fs(''saliency_maps/'' @ name up \<mapsto> ImageFile (cvtColor_swap ov)))"
  using assms(2,3) by (simp add: persist_relative [OF assms(1)])

theorem both_writes_go_to_one_path_witness:
  "\<not> (name (scan 512 512) \<noteq> [] \<and> hd (name (scan 512 512)) = CHR ''/'') \<and>
   raw_write_succeeds writes_succeed \<and> imwrite_outcome writes_succeed = Written \<and>
   persist writes_succeed Map.empty (scan 512 512) [[(1, 2, 3)]]
     = Inr [''saliency_maps/scan.png'' \<mapsto> ImageFile [[(3, 2, 1)]]] \<and>
   persist writes_succeed [''saliency_maps/scan.png'' \<mapsto> ImageFile [[(9, 9, 9)]]] (scan 512 512) [[(1, 2, 3)]]
     = Inr [''saliency_maps/scan.png'' \<mapsto> ImageFile [[(3, 2, 1)]]]"
proof -
  have a: "\<not> (name (scan 512 512) \<noteq> [] \<and> hd (name (scan 512 512)) = CHR ''/'')"
    by (simp add: scan_def)
  have b: "raw_write_succeeds writes_succeed" "imwrite_outcome writes_succeed = Written"
    by (simp_all add: writes_succeed_def)
  show ?thesis
    using a b both_writes_go_to_one_path [OF a b, of Map.empty "[[(1, 2, 3)]]" "ImageFile [[(9, 9, 9)]]"]
    by (simp add: scan_def cvtColor_swap_def)
qed

text \<open>
  After a run on an empty file system there is one file, not two, and it holds the overlay:
  the copy of the raw bytes is gone.
\<close>

theorem raw_copy_is_overwritten:
  "map_sum id (\<lambda>f. f (os_path_join output_dir (name (scan 512 512))))
     (persist writes_succeed Map.empty (scan 512 512) [[(1, 2, 3)]])
     = Inr (Some (ImageFile [[(3, 2, 1)]])) \<and>
   map_sum id dom (persist writes_succeed Map.empty (scan 512 512) [[(1, 2, 3)]])
     = Inr {''saliency_maps/scan.png''}"
  by (simp add: persist_def Let_def writes_succeed_def scan_def os_path_join_def output_dir_def
        cvtColor_swap_def)



text \<open>The second run also leaves the file system as the first run left it.\<close>

lemma persist_idempotent:
  assumes "persist io fs up ov = Inr fs1"
  shows "persist io fs1 up ov = Inr fs1"
proof (cases "imwrite_outcome io")
  case Written
  then show ?thesis using assms
    by (auto simp: persist_def Let_def split: if_splits)
next
  case (NotWritten left)
  then show ?thesis using assms
    by (auto simp: persist_def Let_def fun_upd_twist split: if_splits)
next
  case Raised
  then show ?thesis using assms by (simp add: persist_def Let_def split: if_splits)
qed

lemma second_run_changes_nothing:
  assumes "generate_saliency_map model cv io fs img arr k sz up = Inr (ov, fs1)"
  shows "generate_saliency_map model cv io fs1 img arr k sz up = Inr (ov, fs1)"
proof (cases "compute_overlay model cv img arr k sz")
  case (Inl e)
  then show ?thesis using assms by (simp add: generate_saliency_map_def)
next
  case (Inr ov')
  then have "persist io fs up ov' = Inr fs1" and "ov' = ov"
    using assms by (cases "persist io fs up ov'"; simp add: generate_saliency_map_def)+
  then show ?thesis
    using Inr persist_idempotent [of io fs up ov fs1] by (simp add: generate_saliency_map_def)
qed


section \<open>Runs of the engine\<close>

lemma shape_map_map: "shape (map (map f) a) = shape a"
  by (cases a) (simp_all add: shape_def)

lemma saliency_gradients_linear_model:
  "k < 4 \<Longrightarrow> saliency_gradients (linear_model c) (replicate h (replicate w p)) k
     = Inr (replicate h (replicate w (if k = 0 then \<bar>c\<bar> else 0)))"
  by (simp add: saliency_gradients_def linear_model_def)

lemma reference_run_computes_overlay:
  assumes "0 < s" "k < 4"
  shows "\<not> isl (compute_overlay (linear_model c) reference_cv (black s s)
                  (replicate s (replicate s p)) k (s, s))"
proof -
  have "\<exists>ov. compute_overlay (linear_model c) reference_cv (black s s)
               (replicate s (replicate s p)) k (s, s) = Inr ov"
  proof (rule compute_overlay_succeeds_square [OF reference_cv_contract])
    show "saliency_gradients (linear_model c) (replicate s (replicate s p)) k
            = Inr (replicate s (replicate s (if k = 0 then \<bar>c\<bar> else 0)))"
      using assms(2) by (rule saliency_gradients_linear_model)
    show "fst (shape (replicate s (replicate s (if k = 0 then \<bar>c\<bar> else 0)))) \<noteq> 0"
      using assms(1) by (simp add: shape_replicate)
    show "snd (shape (replicate s (replicate s (if k = 0 then \<bar>c\<bar> else 0)))) \<noteq> 0"
      using assms(1) by (simp add: shape_replicate)
    show "0 < s" by (rule assms(1))
    show "rectangular s s (black s s)"
      unfolding black_def by (rule rectangular_replicate)
  qed
  then show ?thesis by auto
qed

lemma generate_after_overlay:
  "compute_overlay model cv img arr k sz = Inr ov \<Longrightarrow>
   generate_saliency_map model cv io fs img arr k sz up =
     (case persist io fs up ov of Inl e \<Rightarrow> Inl e | Inr fs' \<Rightarrow> Inr (ov, fs'))"
  by (simp add: generate_saliency_map_def)

text \<open>
  C9 (amended). A failure of \<^verbatim>\<open>cv2.imwrite\<close> that it reports by the value it returns does not
  keep the engine from returning the overlay: line 123 discards that value, and the result is
  the one of a run whose write succeeds. Nothing in the function catches an exception, so a
  failure that raises is not covered.
\<close>

theorem unreported_imwrite_failure_still_returns_overlay:
  assumes "imwrite_outcome io = NotWritten left"
  shows "map_sum id fst (generate_saliency_map model cv io fs img img_array class_index img_size uploaded_file)
     = map_sum id fst (generate_saliency_map model cv (io\<lparr>imwrite_outcome := Written\<rparr>) fs img img_array
                         class_index img_size uploaded_file)"
proof (cases "compute_overlay model cv img img_array class_index img_size")
  case (Inl e)
  then show ?thesis by (simp add: generate_saliency_map_def)
next
  case (Inr ov)
  then show ?thesis
    using assms by (simp add: generate_saliency_map_def persist_def Let_def)
qed

theorem unreported_imwrite_failure_still_returns_overlay_witness:
  "imwrite_outcome \<lparr>raw_write_succeeds = True, imwrite_outcome = NotWritten None\<rparr> = NotWritten None \<and>
   \<not> isl (generate_saliency_map (linear_model 1) reference_cv
              \<lparr>raw_write_succeeds = True, imwrite_outcome = NotWritten None\<rparr> Map.empty
              (black 299 299) (replicate 299 (replicate 299 (0, 0, 0))) 0 (299, 299) (scan 512 512)) \<and>
   map_sum id fst (generate_saliency_map (linear_model 1) reference_cv
              \<lparr>raw_write_succeeds = True, imwrite_outcome = NotWritten None\<rparr> Map.empty
              (black 299 299) (replicate 299 (replicate 299 (0, 0, 0))) 0 (299, 299) (scan 512 512))
     = map_sum id fst (generate_saliency_map (linear_model 1) reference_cv
              \<lparr>raw_write_succeeds = True, imwrite_outcome = Written\<rparr> Map.empty
              (black 299 299) (replicate 299 (replicate 299 (0, 0, 0))) 0 (299, 299) (scan 512 512))"
proof -
  let ?io = "\<lparr>raw_write_succeeds = True, imwrite_outcome = NotWritten None\<rparr>"
  have a: "imwrite_outcome ?io = NotWritten None" by simp
  obtain ov where ov: "compute_overlay (linear_model 1) reference_cv (black 299 299)
                         (replicate 299 (replicate 299 (0, 0, 0))) 0 (299, 299) = Inr ov"
    using reference_run_computes_overlay [of 299 0 1 "(0, 0, 0)"]
    by (cases "compute_overlay (linear_model 1) reference_cv (black 299 299)
                 (replicate 299 (replicate 299 (0, 0, 0))) 0 (299, 299)") simp_all
  have b: "\<not> isl (generate_saliency_map (linear_model 1) reference_cv ?io Map.empty
              (black 299 299) (replicate 299 (replicate 299 (0, 0, 0))) 0 (299, 299) (scan 512 512))"
    by (simp add: generate_after_overlay [OF ov] persist_def Let_def)
  show ?thesis
    using a b unreported_imwrite_failure_still_returns_overlay
                [OF a, of "linear_model 1" reference_cv Map.empty "black 299 299"
                   "replicate 299 (replicate 299 (0, 0, 0))" 0 "(299, 299)" "scan 512 512"]
    by simp
qed

text \<open>
  The overlay of a 299 x 299 image is computed, and the engine then raises instead of
  returning it: when \<^verbatim>\<open>cv2.imwrite\<close> raises, and when opening or writing the file of the same
  path fails at lines 117-118.
\<close>

theorem raised_write_failure_loses_overlay:
  "\<not> isl (compute_overlay (linear_model 1) reference_cv (black 299 299)
             (replicate 299 (replicate 299 (0, 0, 0))) 0 (299, 299)) \<and>
   generate_saliency_map (linear_model 1) reference_cv
      \<lparr>raw_write_succeeds = True, imwrite_outcome = Raised\<rparr> Map.empty
      (black 299 299) (replicate 299 (replicate 299 (0, 0, 0))) 0 (299, 299) (scan 512 512)
     = Inl CvError \<and>
   generate_saliency_map (linear_model 1) reference_cv
      \<lparr>raw_write_succeeds = False, imwrite_outcome = Written\<rparr> Map.empty
      (black 299 299) (replicate 299 (replicate 299 (0, 0, 0))) 0 (299, 299) (scan 512 512)
     = Inl OSError"
proof -
  have c: "\<not> isl (compute_overlay (linear_model 1) reference_cv (black 299 299)
             (replicate 299 (replicate 299 (0, 0, 0))) 0 (299, 299))"
    using reference_run_computes_overlay [of 299 0 1 "(0, 0, 0)"] by simp
  then obtain ov where ov: "compute_overlay (linear_model 1) reference_cv (black 299 299)
                         (replicate 299 (replicate 299 (0, 0, 0))) 0 (299, 299) = Inr ov"
    by (cases "compute_overlay (linear_model 1) reference_cv (black 299 299)
                 (replicate 299 (replicate 299 (0, 0, 0))) 0 (299, 299)") simp_all
  show ?thesis
    using c by (simp add: generate_after_overlay [OF ov] persist_def Let_def)
qed


section \<open>No division error\<close>













section \<open>The caller\<close>

lemma img_size_of_square:
  "img_size_of sel = (fst (img_size_of sel), fst (img_size_of sel)) \<and> 0 < fst (img_size_of sel)"
  by (cases sel) (simp_all add: img_size_of_def)

lemma takeWhile_stops:
  "x \<in> set xs \<Longrightarrow> length (takeWhile (\<lambda>v. v \<noteq> x) xs) < length xs"
  by (induction xs) auto

lemma np_argmax_less: "np_argmax xs = Inr k \<Longrightarrow> k < length xs"
proof -
  assume a: "np_argmax xs = Inr k"
  then have ne: "xs \<noteq> []" and k: "k = length (takeWhile (\<lambda>v. v \<noteq> Max (set xs)) xs)"
    by (auto simp: np_argmax_def split: if_splits)
  have "Max (set xs) \<in> set xs" using ne by simp
  then have "length (takeWhile (\<lambda>v. v \<noteq> Max (set xs)) xs) < length xs"
    by (rule takeWhile_stops)
  with k show ?thesis by simp
qed

lemma display_tab_content_cases:
  assumes "display_tab_content load_model cv load_img io fs sel up = Inr (ov, fs')"
  obtains k where
    "compute_overlay (load_model sel) cv (load_img (picture up) (img_size_of sel))
       (map (map (\<lambda>(r, g, b). (r / 255, g / 255, b / 255)))
          (img_to_array (load_img (picture up) (img_size_of sel))))
       k (img_size_of sel) = Inr ov"
proof -
  let ?img = "load_img (picture up) (img_size_of sel)"
  let ?arr = "map (map (\<lambda>(r, g, b). (r / 255, g / 255, b / 255))) (img_to_array ?img)"
  from assms obtain k where
    g: "generate_saliency_map (load_model sel) cv io fs ?img ?arr k (img_size_of sel) up = Inr (ov, fs')"
    by (cases "np_argmax (predict (load_model sel) ?arr)")
       (simp_all add: display_tab_content_def Let_def)
  show ?thesis
  proof (cases "compute_overlay (load_model sel) cv ?img ?arr k (img_size_of sel)")
    case (Inl e)
    then show ?thesis using g by (simp add: generate_saliency_map_def)
  next
    case (Inr ov')
    then have "ov' = ov"
      using g by (cases "persist io fs up ov'") (simp_all add: generate_saliency_map_def)
    with Inr show ?thesis by (intro that) simp
  qed
qed

lemma loaded_image_rectangular:
  assumes "load_img_contract load_img"
  shows "rectangular (fst (img_size_of sel)) (fst (img_size_of sel))
           (load_img src (img_size_of sel))"
proof -
  have "rectangular (fst (img_size_of sel)) (fst (img_size_of sel))
          (load_img src (fst (img_size_of sel), fst (img_size_of sel)))"
    using assms img_size_of_square [of sel] unfolding load_img_contract_def by blast
  then show ?thesis using img_size_of_square [of sel] by simp
qed

lemma display_overlay_shape:
  assumes c: "cv2_contract cv" and l: "load_img_contract load_img"
      and d: "display_tab_content load_model cv load_img io fs sel up = Inr (ov, fs')"
  shows "rectangular (snd (img_size_of sel)) (fst (img_size_of sel)) ov"
proof -
  let ?s = "fst (img_size_of sel)"
  let ?img = "load_img (picture up) (img_size_of sel)"
  have sq: "img_size_of sel = (?s, ?s)" using img_size_of_square [of sel] by simp
  from d obtain k where
    "compute_overlay (load_model sel) cv ?img
       (map (map (\<lambda>(r, g, b). (r / 255, g / 255, b / 255))) (img_to_array ?img))
       k (img_size_of sel) = Inr ov"
    by (rule display_tab_content_cases)
  then have "compute_overlay (load_model sel) cv ?img
       (map (map (\<lambda>(r, g, b). (r / 255, g / 255, b / 255))) (img_to_array ?img))
       k (?s, ?s) = Inr ov"
    using sq by simp
  from compute_overlay_shape [OF c this loaded_image_rectangular [OF l]]
  have "rectangular ?s ?s ov" .
  then show ?thesis using sq by (metis snd_conv)
qed

lemma display_succeeds:
  assumes c: "cv2_contract cv" and l: "load_img_contract load_img"
      and p: "\<And>t. predict (load_model sel) t \<noteq> []"
      and g: "\<And>t k. shape (class_gradient (load_model sel) t k) = shape t"
      and w: "raw_write_succeeds io" "imwrite_outcome io \<noteq> Raised"
  shows "\<not> isl (display_tab_content load_model cv load_img io fs sel up)"
proof -
  let ?s = "fst (img_size_of sel)"
  let ?img = "load_img (picture up) (img_size_of sel)"
  let ?arr = "map (map (\<lambda>(r, g, b). (r / 255, g / 255, b / 255))) (img_to_array ?img)"
  have sq: "img_size_of sel = (?s, ?s)" and s0: "0 < ?s"
    using img_size_of_square [of sel] by simp_all
  have ri: "rectangular ?s ?s ?img" using l by (rule loaded_image_rectangular)
  have sha: "shape ?arr = (?s, ?s)"
    unfolding shape_map_map shape_img_to_array by (rule rectangular_shape [OF ri s0])
  obtain k where k: "np_argmax (predict (load_model sel) ?arr) = Inr k"
    using p [of ?arr] by (auto simp: np_argmax_def)
  then have kl: "k < length (predict (load_model sel) ?arr)" by (rule np_argmax_less)
  let ?g = "map (map (\<lambda>(r, g, b). max (max \<bar>r\<bar> \<bar>g\<bar>) \<bar>b\<bar>)) (class_gradient (load_model sel) ?arr k)"
  have sg: "saliency_gradients (load_model sel) ?arr k = Inr ?g"
    using kl by (simp add: saliency_gradients_def)
  have "shape ?g = shape (class_gradient (load_model sel) ?arr k)" by (rule shape_map_map)
  also have "\<dots> = shape ?arr" by (rule g)
  finally have shg: "shape ?g = (?s, ?s)" using sha by (rule trans)
  have "\<exists>ov. compute_overlay (load_model sel) cv ?img ?arr k (?s, ?s) = Inr ov"
    using c sg _ _ s0 ri
  proof (rule compute_overlay_succeeds_square)
    show "fst (shape ?g) \<noteq> 0" using shg s0 by simp
    show "snd (shape ?g) \<noteq> 0" using shg s0 by simp
  qed
  then obtain ov where "compute_overlay (load_model sel) cv ?img ?arr k (img_size_of sel) = Inr ov"
    using sq by auto
  then have "\<not> isl (generate_saliency_map (load_model sel) cv io fs ?img ?arr k (img_size_of sel) up)"
    using w by (simp add: generate_after_overlay persist_def Let_def split: imwrite_outcome.splits)
  then show ?thesis
    by (simp add: display_tab_content_def Let_def k)
qed


lemma reference_display_succeeds:
  "\<not> isl (display_tab_content (\<lambda>sel. linear_model c) reference_cv reference_load_img
             writes_succeed fs sel up)"
proof (rule display_succeeds [OF reference_cv_contract reference_load_img_contract])
  show "predict (linear_model c) t \<noteq> []" for t by (simp add: linear_model_def)
  show "shape (class_gradient (linear_model c) t k) = shape t" for t k
    by (simp add: linear_model_def shape_map_map)
  show "raw_write_succeeds writes_succeed" by (simp add: writes_succeed_def)
  show "imwrite_outcome writes_succeed \<noteq> Raised" by (simp add: writes_succeed_def)
qed

text \<open>
  C1 (amended). The gradient map and the heatmap overlay have the dimensions of \<^verbatim>\<open>img_size\<close>,
  the input size of the classifier chosen (299 x 299 or 224 x 224): the caller loads the
  upload at that size (line 177) and hands the resized image to the engine, which resizes
  the gradients and the heatmap to \<^verbatim>\<open>img_size\<close> (lines 81 and 110) and blends them with that
  image. The dimensions of the uploaded file play no part.
\<close>

theorem overlay_has_the_classifier_input_size:
  assumes "cv2_contract cv" and "load_img_contract load_img"
  shows "(masked_normalized cv gradients (img_size_of sel) = Inr (normalized, msk) \<longrightarrow>
            rectangular (snd (img_size_of sel)) (fst (img_size_of sel)) normalized \<and>
            rectangular (snd (img_size_of sel)) (fst (img_size_of sel)) (threshold_map normalized msk)) \<and>
         (display_tab_content load_model cv load_img io fs sel uploaded_file = Inr (ov, fs') \<longrightarrow>
            rectangular (snd (img_size_of sel)) (fst (img_size_of sel)) ov)"
proof (intro conjI impI)
  assume mn: "masked_normalized cv gradients (img_size_of sel) = Inr (normalized, msk)"
  have "masked_normalized cv gradients (fst (img_size_of sel), snd (img_size_of sel))
          = Inr (normalized, msk)"
    using mn by simp
  from masked_normalized_shape [OF assms(1) this]
  show n: "rectangular (snd (img_size_of sel)) (fst (img_size_of sel)) normalized" by simp
  show "rectangular (snd (img_size_of sel)) (fst (img_size_of sel)) (threshold_map normalized msk)"
    unfolding threshold_map_def Let_def using n by (rule rectangular_map)
next
  assume "display_tab_content load_model cv load_img io fs sel uploaded_file = Inr (ov, fs')"
  with assms show "rectangular (snd (img_size_of sel)) (fst (img_size_of sel)) ov"
    by (rule display_overlay_shape)
qed

theorem overlay_has_the_classifier_input_size_witness:
  "cv2_contract reference_cv \<and> load_img_contract reference_load_img \<and>
   masked_normalized reference_cv (replicate 299 (replicate 299 0)) (img_size_of Xception)
     = Inr (apply_mask (replicate 299 (replicate 299 0)) (circular_mask 299 299), circular_mask 299 299) \<and>
   rectangular 299 299 (apply_mask (replicate 299 (replicate 299 0)) (circular_mask 299 299)) \<and>
   (\<exists>ov fs'. display_tab_content (\<lambda>sel. linear_model 1) reference_cv reference_load_img
                writes_succeed Map.empty Xception (scan 512 512) = Inr (ov, fs') \<and>
             rectangular 299 299 ov)"
proof -
  have sz: "img_size_of Xception = (299, 299)" by (simp add: img_size_of_def)
  have mn: "masked_normalized reference_cv (replicate 299 (replicate 299 0)) (img_size_of Xception)
     = Inr (apply_mask (replicate 299 (replicate 299 0)) (circular_mask 299 299), circular_mask 299 299)"
    unfolding sz by (rule constant_square_masked_normalized) simp
  obtain ov fs' where d: "display_tab_content (\<lambda>sel. linear_model 1) reference_cv reference_load_img
                writes_succeed Map.empty Xception (scan 512 512) = Inr (ov, fs')"
    using reference_display_succeeds [of 1 Map.empty Xception "scan 512 512"]
    by (cases "display_tab_content (\<lambda>sel. linear_model 1) reference_cv reference_load_img
                writes_succeed Map.empty Xception (scan 512 512)") auto
  note T = overlay_has_the_classifier_input_size
             [OF reference_cv_contract reference_load_img_contract,
              of "replicate 299 (replicate 299 0)" Xception
                 "apply_mask (replicate 299 (replicate 299 0)) (circular_mask 299 299)"
                 "circular_mask 299 299" "\<lambda>sel. linear_model 1" writes_succeed Map.empty
                 "scan 512 512" ov fs']
  have a: "rectangular 299 299 (apply_mask (replicate 299 (replicate 299 0)) (circular_mask 299 299))"
    using T [THEN conjunct1, rule_format, OF mn] by (simp add: sz)
  have b: "rectangular 299 299 ov"
    using T [THEN conjunct2, rule_format, OF d] by (simp add: sz)
  from reference_cv_contract reference_load_img_contract mn a d b show ?thesis by blast
qed

text \<open>
  An upload of 512 x 512 pixels, classified with the model that expects 299 x 299, yields an
  overlay of 299 x 299 pixels (of three channels each).
\<close>

theorem upload_512_yields_overlay_299:
  "shape (picture (scan 512 512)) = (512, 512) \<and>
   map_sum id (\<lambda>p. shape (fst p))
     (display_tab_content (\<lambda>sel. linear_model 1) reference_cv reference_load_img
        writes_succeed Map.empty Xception (scan 512 512)) = Inr (299, 299)"
proof -
  have a: "shape (picture (scan 512 512)) = (512, 512)"
    by (simp add: scan_def black_def shape_replicate)
  obtain ov fs' where d: "display_tab_content (\<lambda>sel. linear_model 1) reference_cv reference_load_img
                writes_succeed Map.empty Xception (scan 512 512) = Inr (ov, fs')"
    using reference_display_succeeds [of 1 Map.empty Xception "scan 512 512"]
    by (cases "display_tab_content (\<lambda>sel. linear_model 1) reference_cv reference_load_img
                writes_succeed Map.empty Xception (scan 512 512)") auto
  have "rectangular (snd (img_size_of Xception)) (fst (img_size_of Xception)) ov"
    using reference_cv_contract reference_load_img_contract d by (rule display_overlay_shape)
  then have "rectangular 299 299 ov" by (simp add: img_size_of_def)
  then have "shape ov = (299, 299)" by (rule rectangular_shape) simp
  with a d show ?thesis by simp
qed

end
